theory Spec2Isabelle
  imports Main "HOL-Library.Sublist" "HOL-Library.Char_ord" "HOL-Library.List_Lexorder"
begin

section \<open>The command-line parser of qutebrowser (qutebrowser/commands/parser.py)\<close>

text \<open>
  A shallow embedding of \<^verbatim>\<open>CommandParser\<close>. Python strings are \<open>string\<close> (lists of
  characters); exceptions are values of the type \<open>error\<close>, returned as \<open>Inl\<close>; the command
  registry \<^verbatim>\<open>objects.commands\<close> is a dictionary, modelled as an association list in
  insertion order, because \<^verbatim>\<open>sorted(objects.commands, key=len)\<close> iterates over it.
\<close>

subsection \<open>Exceptions\<close>

text \<open>
  \<^verbatim>\<open>cmdexc.NoSuchCommandError\<close> carries its message. The other three are the built-in
  exceptions that indexing an empty list, reading an attribute of \<^verbatim>\<open>None\<close> and testing
  membership in \<^verbatim>\<open>None\<close> raise.
\<close>

datatype error = NoSuchCommandError string | IndexError | AttributeError | TypeError

text \<open>The two messages the parser raises; the specification calls them by these names.\<close>

definition EmptyInput :: error where
  "EmptyInput = NoSuchCommandError ''No command given''"

definition UnknownCommand :: "string \<Rightarrow> error" where
  "UnknownCommand cmdstr = NoSuchCommandError (cmdstr @ '': no such command'')"

subsection \<open>Python string methods\<close>

text \<open>
  A \<open>char\<close> stands for a code point below 256. The characters among them for which
  \<^verbatim>\<open>str.isspace\<close> holds, which are the ones that \<^verbatim>\<open>str.strip()\<close> and \<^verbatim>\<open>str.split()\<close>
  take for whitespace: tab, line feed, vertical tab, form feed, carriage return, the four
  separators 0x1C to 0x1F, the space, the next-line character 0x85 and the no-break
  space 0xA0.
\<close>

definition is_space :: "char \<Rightarrow> bool" where
  "is_space c = (c \<in> set [CHR 0x09, CHR 0x0A, CHR 0x0B, CHR 0x0C, CHR 0x0D,
                           CHR 0x1C, CHR 0x1D, CHR 0x1E, CHR 0x1F, CHR 0x20,
                           CHR 0x85, CHR 0xA0])"

text \<open>\<^verbatim>\<open>s.lstrip()\<close>, \<^verbatim>\<open>s.rstrip()\<close>, \<^verbatim>\<open>s.strip()\<close>\<close>

definition lstrip :: "string \<Rightarrow> string" where
  "lstrip s = dropWhile is_space s"

definition rstrip :: "string \<Rightarrow> string" where
  "rstrip s = rev (dropWhile is_space (rev s))"

definition strip :: "string \<Rightarrow> string" where
  "strip s = rstrip (lstrip s)"

text \<open>\<^verbatim>\<open>s.lstrip(chars)\<close>\<close>

definition lstrip_chars :: "string \<Rightarrow> string \<Rightarrow> string" where
  "lstrip_chars chars s = dropWhile (\<lambda>c. c \<in> set chars) s"

text \<open>\<^verbatim>\<open>s.partition(sep)\<close> for a separator of one character\<close>

definition str_partition :: "char \<Rightarrow> string \<Rightarrow> string \<times> string \<times> string" where
  "str_partition sep s =
     (if sep \<in> set s
      then (takeWhile (\<lambda>c. c \<noteq> sep) s, [sep], tl (dropWhile (\<lambda>c. c \<noteq> sep) s))
      else (s, [], []))"

text \<open>
  \<^verbatim>\<open>s.split(maxsplit=1)\<close>: no part when \<open>s\<close> is blank; otherwise the first word, and the
  rest behind the whitespace that follows it when that rest is not empty.
\<close>

definition str_split_maxsplit1 :: "string \<Rightarrow> string list" where
  "str_split_maxsplit1 s =
     (let s1 = dropWhile is_space s in
      if s1 = [] then []
      else
        let rest = dropWhile is_space (dropWhile (\<lambda>c. \<not> is_space c) s1) in
        if rest = [] then [takeWhile (\<lambda>c. \<not> is_space c) s1]
        else [takeWhile (\<lambda>c. \<not> is_space c) s1, rest])"

text \<open>\<^verbatim>\<open>s.endswith(' ')\<close> and \<^verbatim>\<open>s.startswith('-')\<close>, for one character\<close>

definition endswith :: "string \<Rightarrow> char \<Rightarrow> bool" where
  "endswith s c = (s \<noteq> [] \<and> last s = c)"

definition startswith :: "string \<Rightarrow> char \<Rightarrow> bool" where
  "startswith s c = (case s of [] \<Rightarrow> False | x # _ \<Rightarrow> x = c)"

text \<open>
  \<^verbatim>\<open>text.split(';;')\<close>: the pieces between the occurrences of the delimiter, found from
  left to right without overlap. The first argument is the piece read so far.
\<close>

fun split_delim :: "string \<Rightarrow> string \<Rightarrow> string list" where
  "split_delim acc (a # b # cs) =
     (if a = CHR '';'' \<and> b = CHR '';'' then acc # split_delim [] cs
      else split_delim (acc @ [a]) (b # cs))"
| "split_delim acc [a] = [acc @ [a]]"
| "split_delim acc [] = [acc]"

definition str_split_delim :: "string \<Rightarrow> string list" where
  "str_split_delim s = split_delim [] s"

subsection \<open>Commands, results and the tokenizer\<close>

text \<open>The attributes of a registered command that the parser reads.\<close>

record command =
  name :: string
  maxsplit :: "nat option"
  no_cmd_split :: bool
  flags_with_args :: "string list"

record ParseResult =
  cmd :: "command option"
  args :: "string list option"
  cmdline :: "string list"

text \<open>
  The module \<^verbatim>\<open>qutebrowser.misc.split\<close> is imported by the parser and is not part of the
  sources at hand. Its two functions are parameters of the model:
  \<open>split_split s keep\<close> is \<^verbatim>\<open>split.split(s, keep=keep)\<close> and
  \<open>simple_split s keep maxsplit\<close> is \<^verbatim>\<open>split.simple_split(s, keep=keep, maxsplit=maxsplit)\<close>.
\<close>

record tokenizer =
  split_split :: "string \<Rightarrow> bool \<Rightarrow> string list"
  simple_split :: "string \<Rightarrow> bool \<Rightarrow> nat option \<Rightarrow> string list"

text \<open>
  What a call reads besides its arguments: the tokenizer, the registry
  \<^verbatim>\<open>objects.commands\<close> and the attribute \<^verbatim>\<open>self._partial_match\<close>.
\<close>

record env =
  tok :: tokenizer
  commands :: "(string \<times> command) list"
  partial_match :: bool

subsection \<open>\<^verbatim>\<open>CommandParser._get_alias\<close>\<close>

definition get_alias ::
  "string \<Rightarrow> (string \<times> string) list \<Rightarrow> string option \<Rightarrow> error + string option" where
  "get_alias text aliases dflt =
     (case str_split_maxsplit1 (strip text) of
        [] \<Rightarrow> Inl IndexError
      | p0 # ps \<Rightarrow>
          (case map_of aliases p0 of
             None \<Rightarrow> Inr dflt
           | Some alias \<Rightarrow>
               let new_cmd = (case ps of [] \<Rightarrow> alias | p1 # _ \<Rightarrow> alias @ '' '' @ p1)
               in Inr (Some (if endswith text (CHR '' '') then new_cmd @ '' '' else new_cmd))))"

subsection \<open>\<^verbatim>\<open>CommandParser._completion_match\<close>\<close>

definition completion_match :: "(string \<times> command) list \<Rightarrow> string \<Rightarrow> bool \<Rightarrow> string" where
  "completion_match cmds cmdstr best =
     (let matches = filter (\<lambda>c. sublist cmdstr c) (sort_key length (map fst cmds)) in
      if length matches = 1 then hd matches
      else if length matches > 1 \<and> best then hd matches
      else cmdstr)"

subsection \<open>\<^verbatim>\<open>CommandParser._split_args\<close>\<close>

text \<open>
  The loop over \<^verbatim>\<open>enumerate(split_args)\<close>: \<open>i\<close> is the index, \<open>flag_arg_count\<close> the
  counter. It returns the bound of the second split at the first argument that is no
  flag, and \<open>None\<close> when the loop ends without one.
\<close>

fun first_positional :: "command \<Rightarrow> nat \<Rightarrow> string list \<Rightarrow> nat \<Rightarrow> nat \<Rightarrow> nat option" where
  "first_positional c m [] i flag_arg_count = None"
| "first_positional c m (a # rest) i flag_arg_count =
     (let arg = strip a in
      if startswith arg (CHR ''-'') then
        (if arg \<in> set (flags_with_args c)
         then first_positional c m rest (i + 1) (flag_arg_count + 1)
         else first_positional c m rest (i + 1) flag_arg_count)
      else Some (i + m + flag_arg_count))"

definition split_args :: "tokenizer \<Rightarrow> command \<Rightarrow> string \<Rightarrow> bool \<Rightarrow> string list" where
  "split_args tk c argstr keep =
     (if argstr = [] then []
      else case maxsplit c of
        None \<Rightarrow> split_split tk argstr keep
      | Some m \<Rightarrow>
          let split_args = simple_split tk argstr keep None in
          (case first_positional c m split_args 0 0 of
             Some bound \<Rightarrow> simple_split tk argstr keep (Some bound)
           | None \<Rightarrow> split_args))"

subsection \<open>\<^verbatim>\<open>CommandParser.parse\<close>\<close>

definition parse :: "env \<Rightarrow> string \<Rightarrow> bool \<Rightarrow> bool \<Rightarrow> bool \<Rightarrow> error + ParseResult" where
  "parse e text fallback keep best_match =
     (let (cmdstr0, sep, argstr) = str_partition (CHR '' '') text in
        if cmdstr0 = [] \<and> \<not> fallback then Inl (NoSuchCommandError ''No command given'')
        else
          let cmdstr = (if partial_match e then completion_match (commands e) cmdstr0 best_match
                        else cmdstr0)
          in case map_of (commands e) cmdstr of
               None \<Rightarrow>
                 if \<not> fallback then Inl (NoSuchCommandError (cmdstr @ '': no such command''))
                 else Inr \<lparr>cmd = None, args = None, cmdline = split_split (tok e) text keep\<rparr>
             | Some c \<Rightarrow>
                 let as = split_args (tok e) c argstr keep in
                 Inr \<lparr>cmd = Some c, args = Some as,
                      cmdline = (if keep \<and> as \<noteq> [] then [cmdstr, sep @ hd as] @ tl as
                                 else if keep then [cmdstr, sep]
                                 else [cmdstr] @ as)\<rparr>)"

subsection \<open>\<^verbatim>\<open>CommandParser._parse_all_gen\<close> and \<^verbatim>\<open>CommandParser.parse_all\<close>\<close>

text \<open>
  The first statements of the generator: the text stripped of whitespace and of leading
  colons, then put through \<^verbatim>\<open>_get_alias\<close> with the text itself as the default.
  \<^verbatim>\<open>if aliases:\<close> holds for a dictionary that is not empty; \<^verbatim>\<open>aliases=None\<close> is the
  default of the parameter.
\<close>

definition resolved_text :: "string \<Rightarrow> (string \<times> string) list option \<Rightarrow> error + string option" where
  "resolved_text text0 aliases =
     (let text = strip (lstrip_chars '':'' (strip text0)) in
      if text = [] then Inl (NoSuchCommandError ''No command given'')
      else case aliases of
             Some (a # as) \<Rightarrow> get_alias text (a # as) (Some text)
           | _ \<Rightarrow> Inr (Some text))"

text \<open>
  The generator up to its loop: the texts the loop will parse, or the exception raised
  before the first \<^verbatim>\<open>yield\<close>. The test \<^verbatim>\<open>';;' in text\<close> raises on \<^verbatim>\<open>None\<close>, and
  \<^verbatim>\<open>result.cmd.no_cmd_split\<close> raises when \<^verbatim>\<open>result.cmd\<close> is \<^verbatim>\<open>None\<close>.
\<close>

definition sub_texts ::
  "env \<Rightarrow> string \<Rightarrow> (string \<times> string) list option \<Rightarrow> bool \<Rightarrow> bool \<Rightarrow> bool \<Rightarrow> error + string list" where
  "sub_texts e text0 aliases fallback keep best_match =
     (case resolved_text text0 aliases of
        Inl err \<Rightarrow> Inl err
      | Inr None \<Rightarrow> Inl TypeError
      | Inr (Some text) \<Rightarrow>
          if sublist '';;'' text then
            (case str_split_delim text of
               [] \<Rightarrow> Inl IndexError
             | first # _ \<Rightarrow>
                 (case parse e first fallback keep best_match of
                    Inl err \<Rightarrow> Inl err
                  | Inr result \<Rightarrow>
                      (case cmd result of
                         None \<Rightarrow> Inl AttributeError
                       | Some c \<Rightarrow>
                           if no_cmd_split c then Inr [text]
                           else Inr (map strip (str_split_delim text)))))
          else Inr [text])"

text \<open>
  The loop \<^verbatim>\<open>for sub in sub_texts: yield self.parse(sub, ...)\<close> as the trace of the
  generator: the results it yields, and the exception that ends it, if any. An exception
  raised by \<^verbatim>\<open>parse\<close> leaves the generator, which then yields nothing more.
\<close>

fun yield_all :: "(string \<Rightarrow> error + ParseResult) \<Rightarrow> string list \<Rightarrow> ParseResult list \<times> error option" where
  "yield_all p [] = ([], None)"
| "yield_all p (sub # subs) =
     (case p sub of
        Inl err \<Rightarrow> ([], Some err)
      | Inr r \<Rightarrow> (case yield_all p subs of (rs, x) \<Rightarrow> (r # rs, x)))"

definition parse_all_gen ::
  "env \<Rightarrow> string \<Rightarrow> (string \<times> string) list option \<Rightarrow> bool \<Rightarrow> bool \<Rightarrow> bool
     \<Rightarrow> ParseResult list \<times> error option" where
  "parse_all_gen e text aliases fallback keep best_match =
     (case sub_texts e text aliases fallback keep best_match of
        Inl err \<Rightarrow> ([], Some err)
      | Inr subs \<Rightarrow> yield_all (\<lambda>sub. parse e sub fallback keep best_match) subs)"

text \<open>\<^verbatim>\<open>list(self._parse_all_gen(...))\<close>: the list, unless the generator raised.\<close>

definition parse_all ::
  "env \<Rightarrow> string \<Rightarrow> (string \<times> string) list option \<Rightarrow> bool \<Rightarrow> bool \<Rightarrow> bool
     \<Rightarrow> error + ParseResult list" where
  "parse_all e text aliases fallback keep best_match =
     (case parse_all_gen e text aliases fallback keep best_match of
        (rs, None) \<Rightarrow> Inr rs
      | (rs, Some err) \<Rightarrow> Inl err)"

subsection \<open>A tokenizer that splits at whitespace\<close>

text \<open>
  Modelled from the spec: the raw tokenizer (\<^verbatim>\<open>qutebrowser.misc.split\<close>) is missing from
  the sources. The specification says that it splits a string into an ordered sequence of
  tokens, that it has a mode that keeps the separators, and that with a bound everything
  from the bound onward is joined into one final token, internal whitespace preserved.
  \<open>ws_keep bound s\<close> is that tokenizer in the keeping mode, for text without quotes or
  escapes: every token carries the whitespace in front of it, and whitespace at the end is
  a token of its own.
\<close>

function ws_keep :: "nat option \<Rightarrow> string \<Rightarrow> string list" where
  "ws_keep bound s =
     (if s = [] then []
      else if bound = Some 0 then [s]
      else (takeWhile is_space s @ takeWhile (\<lambda>c. \<not> is_space c) (dropWhile is_space s))
           # ws_keep (map_option (\<lambda>n. n - 1) bound)
               (dropWhile (\<lambda>c. \<not> is_space c) (dropWhile is_space s)))"
  by pat_completeness auto
termination
proof (relation "measure (\<lambda>(bound, s). length s)")
  show "wf (measure (\<lambda>(bound, s). length s))" by simp
next
  fix bound :: "nat option" and s :: string
  assume "s \<noteq> []"
  then obtain c cs where s: "s = c # cs" by (cases s) auto
  have "length (dropWhile (\<lambda>c. \<not> is_space c) (dropWhile is_space cs)) \<le> length cs"
    by (rule order_trans [OF length_dropWhile_le length_dropWhile_le])
  moreover have "length (dropWhile (\<lambda>c. \<not> is_space c) cs) \<le> length cs"
    by (rule length_dropWhile_le)
  ultimately
  show "((map_option (\<lambda>n. n - 1) bound,
          dropWhile (\<lambda>c. \<not> is_space c) (dropWhile is_space s)), (bound, s))
        \<in> measure (\<lambda>(bound, s). length s)"
    by (simp add: s)
qed

declare ws_keep.simps [simp del]

text \<open>
  Modelled from the spec: the same tokenizer (missing from the sources) without the
  keeping mode. The tokens are the words between the whitespace; the final token that a
  bound joins keeps its internal whitespace and loses the whitespace at its end.
\<close>

function ws_drop :: "nat option \<Rightarrow> string \<Rightarrow> string list" where
  "ws_drop bound s =
     (if dropWhile is_space s = [] then []
      else if bound = Some 0 then [rstrip (dropWhile is_space s)]
      else takeWhile (\<lambda>c. \<not> is_space c) (dropWhile is_space s)
           # ws_drop (map_option (\<lambda>n. n - 1) bound)
               (dropWhile (\<lambda>c. \<not> is_space c) (dropWhile is_space s)))"
  by pat_completeness auto
termination
proof (relation "measure (\<lambda>(bound, s). length s)")
  show "wf (measure (\<lambda>(bound, s). length s))" by simp
next
  fix bound :: "nat option" and s :: string
  assume "dropWhile is_space s \<noteq> []"
  then obtain c cs where r: "dropWhile is_space s = c # cs"
    by (cases "dropWhile is_space s") auto
  then have "\<not> is_space c"
    using hd_dropWhile [of is_space s] by simp
  then have "length (dropWhile (\<lambda>c. \<not> is_space c) (dropWhile is_space s)) \<le> length cs"
    by (simp add: r length_dropWhile_le)
  moreover have "length (c # cs) \<le> length s"
    unfolding r [symmetric] by (rule length_dropWhile_le)
  ultimately
  show "((map_option (\<lambda>n. n - 1) bound,
          dropWhile (\<lambda>c. \<not> is_space c) (dropWhile is_space s)), (bound, s))
        \<in> measure (\<lambda>(bound, s). length s)"
    by simp
qed

declare ws_drop.simps [simp del]

text \<open>
  Modelled from the spec: both functions of the missing module as this one tokenizer,
  \<^verbatim>\<open>split.split\<close> being the split without a bound.
\<close>

definition ws_tokenizer :: tokenizer where
  "ws_tokenizer =
     \<lparr>split_split = (\<lambda>s keep. if keep then ws_keep None s else ws_drop None s),
      simple_split = (\<lambda>s keep bound. if keep then ws_keep bound s else ws_drop bound s)\<rparr>"

subsection \<open>Example data\<close>

text \<open>A registry with the one command \<^verbatim>\<open>open\<close>, used to run the parser on concrete lines.\<close>

definition example_open :: command where
  "example_open = \<lparr>name = ''open'', maxsplit = None, no_cmd_split = False, flags_with_args = []\<rparr>"

definition example_env :: env where
  "example_env = \<lparr>tok = ws_tokenizer, commands = [(''open'', example_open)], partial_match = False\<rparr>"

text \<open>The same registry with partial matching switched on.\<close>

definition example_env_partial :: env where
  "example_env_partial = \<lparr>tok = ws_tokenizer, commands = [(''open'', example_open)], partial_match = True\<rparr>"

text \<open>A registry whose \<^verbatim>\<open>open\<close> declares \<^verbatim>\<open>no_cmd_split\<close>.\<close>

definition example_open_nosplit :: command where
  "example_open_nosplit = \<lparr>name = ''open'', maxsplit = None, no_cmd_split = True, flags_with_args = []\<rparr>"

definition example_env_nosplit :: env where
  "example_env_nosplit = \<lparr>tok = ws_tokenizer, commands = [(''open'', example_open_nosplit)], partial_match = False\<rparr>"

text \<open>A command with the bound \<open>m\<close> whose flag \<^verbatim>\<open>-v\<close> takes an argument.\<close>

definition example_bounded :: "nat \<Rightarrow> command" where
  "example_bounded m = \<lparr>name = ''cmd'', maxsplit = Some m, no_cmd_split = False, flags_with_args = [''-v'']\<rparr>"

subsection \<open>The matcher in the words of the specification\<close>

text \<open>
  The specification's matcher, for comparison with \<open>completion_match\<close>: the registered
  names that contain the typed token, by ascending length, names of equal length in
  lexical order; the only match, or the first one when there are several and
  \<open>preferBest\<close> is set, and the token itself otherwise.
\<close>

definition spec_completion_match :: "string list \<Rightarrow> string \<Rightarrow> bool \<Rightarrow> string" where
  "spec_completion_match registryNames pfx preferBest =
     (let matches = sort_key length (sort (filter (\<lambda>n. sublist pfx n) registryNames)) in
      if length matches = 1 then hd matches
      else if length matches > 1 \<and> preferBest then hd matches
      else pfx)"

text \<open>A registry of four commands, in the order of their registration.\<close>

definition example_named :: "string \<Rightarrow> command" where
  "example_named n = \<lparr>name = n, maxsplit = None, no_cmd_split = False, flags_with_args = []\<rparr>"

definition example_registry :: "(string \<times> command) list" where
  "example_registry =
     [(''open-file'', example_named ''open-file''), (''oper'', example_named ''oper''),
      (''open'', example_named ''open''), (''quit'', example_named ''quit'')]"

subsection \<open>The keeping mode\<close>

text \<open>
  A tokenizer loses nothing in its keeping mode when, for every input and bound, the
  tokens of \<^verbatim>\<open>split.split(s, keep=True)\<close> and of \<^verbatim>\<open>split.simple_split(s, keep=True, ...)\<close>
  put together are the input.
\<close>

definition keep_lossless :: "tokenizer \<Rightarrow> bool" where
  "keep_lossless tk =
     ((\<forall>s. concat (split_split tk s True) = s) \<and>
      (\<forall>s bound. concat (simple_split tk s True bound) = s))"

text \<open>\<^verbatim>\<open>' '.join(ts)\<close>\<close>

definition join_spaces :: "string list \<Rightarrow> string" where
  "join_spaces ts = (case ts of [] \<Rightarrow> [] | t # rest \<Rightarrow> t @ concat (map (\<lambda>u. '' '' @ u) rest))"

text \<open>
  A line of three sub-commands; the piece in the middle has a space in front of it and a
  tab behind it.
\<close>

definition example_line :: string where
  "example_line = ''open a ;; open'' @ [CHR 0x09] @ '';; open b''"

section \<open>Empty input\<close>

lemma sub_texts_empty:
  "strip (lstrip_chars '':'' (strip text)) = [] \<Longrightarrow>
     sub_texts e text aliases fallback keep best_match = Inl EmptyInput"
  by (simp add: sub_texts_def resolved_text_def EmptyInput_def)

lemma parse_empty_token:
  "fst (str_partition (CHR '' '') text) = [] \<Longrightarrow>
     parse e text False keep best_match = Inl EmptyInput"
  by (cases "str_partition (CHR '' '') text") (simp add: parse_def EmptyInput_def)

lemma parse_all_empty:
  "strip (lstrip_chars '':'' (strip text)) = [] \<Longrightarrow>
     parse_all_gen e text aliases fallback keep best_match = ([], Some EmptyInput) \<and>
     parse_all e text aliases fallback keep best_match = Inl EmptyInput"
  by (simp add: parse_all_def parse_all_gen_def sub_texts_empty)

lemma strip_simps:
  "strip [] = []" "strip ''   '' = []" "strip '':'' = '':''"
  by (simp_all add: strip_def rstrip_def lstrip_def is_space_def)

text \<open>
  C10, as amended: \<^verbatim>\<open>parse_all\<close> raises \<^verbatim>\<open>NoSuchCommandError("No command given")\<close>, the
  specification's EmptyInput, for every text that is empty once whitespace and leading
  colons are stripped, among them the empty text, three spaces and a single colon; and
  \<^verbatim>\<open>parse\<close> without fallback raises it when the token in front of the first space
  character is empty, that is, when the text is empty or begins with a space.
\<close>

theorem empty_input:
  "(strip (lstrip_chars '':'' (strip text)) = [] \<longrightarrow>
      parse_all_gen e text aliases fallback keep best_match = ([], Some EmptyInput) \<and>
      parse_all e text aliases fallback keep best_match = Inl EmptyInput)
   \<and> parse_all e '''' aliases fallback keep best_match = Inl EmptyInput
   \<and> parse_all e ''   '' aliases fallback keep best_match = Inl EmptyInput
   \<and> parse_all e '':'' aliases fallback keep best_match = Inl EmptyInput
   \<and> (fst (str_partition (CHR '' '') text) = [] \<longrightarrow>
        parse e text False keep best_match = Inl EmptyInput)"
proof -
  have "strip (lstrip_chars '':'' (strip '''')) = []"
    and "strip (lstrip_chars '':'' (strip ''   '')) = []"
    and "strip (lstrip_chars '':'' (strip '':'')) = []"
    by (simp_all add: strip_simps lstrip_chars_def)
  then show ?thesis
    using parse_all_empty parse_empty_token by simp
qed

lemma ex_nbsp_blank: "strip (lstrip_chars '':'' (strip [CHR 0xA0])) = []"
  by code_simp

theorem empty_input_witness:
  "strip (lstrip_chars '':'' (strip '' : '')) = []
   \<and> fst (str_partition (CHR '' '') '' : '') = []
   \<and> parse_all_gen example_env '' : '' None True False False = ([], Some EmptyInput)
   \<and> parse_all example_env '' : '' None True False False = Inl EmptyInput
   \<and> parse example_env '' : '' False False False = Inl EmptyInput
   \<and> strip (lstrip_chars '':'' (strip [CHR 0xA0])) = []
   \<and> parse_all example_env [CHR 0xA0] None True False False = Inl EmptyInput"
  using empty_input [of "'' : ''" example_env None True False False]
    empty_input [of "[CHR 0xA0]" example_env None True False False] ex_nbsp_blank
  by (simp add: strip_def rstrip_def lstrip_def is_space_def lstrip_chars_def str_partition_def)

text \<open>
  The claim as stated fails on a text that begins with a tab: its first
  whitespace-delimited token is empty, but \<^verbatim>\<open>partition(' ')\<close> splits at the space
  character only, the token is the whole text, and the error names it.
\<close>

theorem empty_input_counterexample:
  "is_space (hd (CHR 0x09 # ''open''))
   \<and> takeWhile (\<lambda>c. \<not> is_space c) (CHR 0x09 # ''open'') = []
   \<and> parse example_env (CHR 0x09 # ''open'') False False False =
        Inl (UnknownCommand (CHR 0x09 # ''open''))
   \<and> parse example_env (CHR 0x09 # ''open'') False False False \<noteq> Inl EmptyInput"
  by code_simp

section \<open>The result record\<close>

lemma ex_parse_open_foo:
  "parse example_env ''open foo'' False False False =
     Inr \<lparr>cmd = Some example_open, args = Some [''foo''], cmdline = [''open'', ''foo'']\<rparr>"
  by code_simp

text \<open>
  C9, as amended: in every result that \<^verbatim>\<open>parse\<close> returns, an absent command comes with
  absent arguments and with the raw tokenization of the text as display tokens (which is
  empty when the tokenizer finds no token); a present command comes with present
  arguments and with display tokens that are not empty.
\<close>

theorem parse_result_invariant:
  assumes "parse e text fallback keep best_match = Inr r"
  shows "(cmd r = None \<longrightarrow> args r = None \<and> cmdline r = split_split (tok e) text keep)
       \<and> (cmd r \<noteq> None \<longrightarrow> args r \<noteq> None \<and> cmdline r \<noteq> [])"
  using assms
  by (cases "str_partition (CHR '' '') text")
     (auto simp: parse_def Let_def split: option.splits if_splits)

theorem parse_result_invariant_witness:
  "parse example_env ''open foo'' False False False =
     Inr \<lparr>cmd = Some example_open, args = Some [''foo''], cmdline = [''open'', ''foo'']\<rparr>
   \<and> cmd \<lparr>cmd = Some example_open, args = Some [''foo''], cmdline = [''open'', ''foo'']\<rparr> \<noteq> None
   \<and> args \<lparr>cmd = Some example_open, args = Some [''foo''], cmdline = [''open'', ''foo'']\<rparr> \<noteq> None
   \<and> cmdline \<lparr>cmd = Some example_open, args = Some [''foo''], cmdline = [''open'', ''foo'']\<rparr> \<noteq> []"
  using parse_result_invariant [OF ex_parse_open_foo] ex_parse_open_foo by simp

text \<open>
  The claim as stated fails on the empty text with fallback: the result is no error, and
  its display tokens are empty.
\<close>

theorem parse_result_invariant_counterexample:
  "parse example_env '''' True False False = Inr \<lparr>cmd = None, args = None, cmdline = []\<rparr>"
  by code_simp

section \<open>Unknown commands\<close>

text \<open>
  C7: when the command token, after partial matching if that is on, is not in the
  registry, \<^verbatim>\<open>parse\<close> with fallback returns a result with absent command and arguments
  whose display tokens are the raw tokenization of the whole text; without fallback, for
  a text that has a command token (the typed token is not empty), it raises
  \<^verbatim>\<open>NoSuchCommandError\<close> naming the attempted token. A text with an empty token is the
  empty input, which raises "No command given".
\<close>

theorem unknown_command:
  assumes "cmdstr = (if partial_match e
                     then completion_match (commands e) (fst (str_partition (CHR '' '') text)) best_match
                     else fst (str_partition (CHR '' '') text))"
    and "map_of (commands e) cmdstr = None"
  shows "parse e text True keep best_match =
           Inr \<lparr>cmd = None, args = None, cmdline = split_split (tok e) text keep\<rparr>
       \<and> (fst (str_partition (CHR '' '') text) \<noteq> [] \<longrightarrow>
            parse e text False keep best_match = Inl (UnknownCommand cmdstr))
       \<and> (fst (str_partition (CHR '' '') text) = [] \<longrightarrow>
            parse e text False keep best_match = Inl EmptyInput)"
  using assms
  by (cases "str_partition (CHR '' '') text")
     (auto simp: parse_def Let_def UnknownCommand_def EmptyInput_def)

lemma ex_token_notacommand:
  "(if partial_match example_env_partial
    then completion_match (commands example_env_partial)
           (fst (str_partition (CHR '' '') ''notacommand arg'')) False
    else fst (str_partition (CHR '' '') ''notacommand arg'')) = ''notacommand''"
  by code_simp

lemma ex_lookup_notacommand: "map_of (commands example_env_partial) ''notacommand'' = None"
  by code_simp

lemma ex_split_notacommand:
  "split_split (tok example_env_partial) ''notacommand arg'' False = [''notacommand'', ''arg'']"
  by code_simp

lemma ex_partition_notacommand: "fst (str_partition (CHR '' '') ''notacommand arg'') = ''notacommand''"
  by code_simp

theorem unknown_command_witness:
  "map_of (commands example_env_partial) ''notacommand'' = None
   \<and> parse example_env_partial ''notacommand arg'' True False False =
        Inr \<lparr>cmd = None, args = None, cmdline = [''notacommand'', ''arg'']\<rparr>
   \<and> parse example_env_partial ''notacommand arg'' False False False =
        Inl (UnknownCommand ''notacommand'')"
  using unknown_command [OF ex_token_notacommand [symmetric] ex_lookup_notacommand, of False]
    ex_lookup_notacommand ex_split_notacommand ex_partition_notacommand
  by simp

section \<open>A compound line whose first command is unknown\<close>

text \<open>
  C4: when the text holds the delimiter and the command token of its first piece is not
  in the registry, \<^verbatim>\<open>parse_all\<close> with fallback yields no result: the parse of the first
  piece returns a result without a command, reading \<^verbatim>\<open>no_cmd_split\<close> from it raises,
  and the call ends with that exception, which is neither of the two
  \<^verbatim>\<open>NoSuchCommandError\<close>s.
\<close>

theorem compound_fallback_absent_command:
  assumes "resolved_text text aliases = Inr (Some t)"
    and "sublist '';;'' t"
    and "str_split_delim t = first # rest"
    and "cmdstr = (if partial_match e
                   then completion_match (commands e) (fst (str_partition (CHR '' '') first)) best_match
                   else fst (str_partition (CHR '' '') first))"
    and "map_of (commands e) cmdstr = None"
  shows "parse e first True keep best_match =
           Inr \<lparr>cmd = None, args = None, cmdline = split_split (tok e) first keep\<rparr>
       \<and> parse_all_gen e text aliases True keep best_match = ([], Some AttributeError)
       \<and> parse_all e text aliases True keep best_match = Inl AttributeError
       \<and> AttributeError \<noteq> EmptyInput
       \<and> (\<forall>c. AttributeError \<noteq> UnknownCommand c)"
proof -
  have p: "parse e first True keep best_match =
             Inr \<lparr>cmd = None, args = None, cmdline = split_split (tok e) first keep\<rparr>"
    using assms(4,5)
    by (cases "str_partition (CHR '' '') first") (auto simp: parse_def Let_def)
  then have "sub_texts e text aliases True keep best_match = Inl AttributeError"
    using assms(1-3) by (simp add: sub_texts_def)
  then show ?thesis
    using p by (simp add: parse_all_gen_def parse_all_def EmptyInput_def UnknownCommand_def)
qed

lemma ex_resolved_foo: "resolved_text ''foo ;; open bar'' None = Inr (Some ''foo ;; open bar'')"
  by code_simp

lemma ex_sublist_foo: "sublist '';;'' ''foo ;; open bar''"
  by code_simp

lemma ex_pieces_foo: "str_split_delim ''foo ;; open bar'' = [''foo '', '' open bar'']"
  by code_simp

lemma ex_token_foo:
  "(if partial_match example_env
    then completion_match (commands example_env) (fst (str_partition (CHR '' '') ''foo '')) False
    else fst (str_partition (CHR '' '') ''foo '')) = ''foo''"
  by code_simp

lemma ex_lookup_foo: "map_of (commands example_env) ''foo'' = None"
  by code_simp

theorem compound_fallback_absent_command_witness:
  "resolved_text ''foo ;; open bar'' None = Inr (Some ''foo ;; open bar'')
   \<and> sublist '';;'' ''foo ;; open bar''
   \<and> map_of (commands example_env) ''foo'' = None
   \<and> parse_all_gen example_env ''foo ;; open bar'' None True False False = ([], Some AttributeError)
   \<and> parse_all example_env ''foo ;; open bar'' None True False False = Inl AttributeError
   \<and> AttributeError \<noteq> EmptyInput"
  using compound_fallback_absent_command
          [OF ex_resolved_foo ex_sublist_foo ex_pieces_foo ex_token_foo [symmetric] ex_lookup_foo, of False]
    ex_resolved_foo ex_sublist_foo ex_lookup_foo
  by simp

section \<open>Stripping, splitting and partitioning\<close>

lemma rstrip_Cons:
  "rstrip (c # s) = (if rstrip s = [] \<and> is_space c then [] else c # rstrip s)"
  by (auto simp: rstrip_def dropWhile_append)

lemma rstrip_Nil [simp]: "rstrip [] = []"
  by (simp add: rstrip_def)

lemma rstrip_eq_Nil: "rstrip s = [] \<longleftrightarrow> (\<forall>c\<in>set s. is_space c)"
  by (simp add: rstrip_def)

lemma takeWhile_rstrip:
  "takeWhile (\<lambda>c. \<not> is_space c) (rstrip s) = takeWhile (\<lambda>c. \<not> is_space c) s"
  by (induction s) (simp_all add: rstrip_Cons)

lemma dropWhile_word_rstrip:
  "dropWhile (\<lambda>c. \<not> is_space c) (rstrip s) = rstrip (dropWhile (\<lambda>c. \<not> is_space c) s)"
  by (induction s) (simp_all add: rstrip_Cons)

lemma dropWhile_space_rstrip:
  "dropWhile is_space (rstrip s) = rstrip (dropWhile is_space s)"
proof (induction s)
  case Nil
  show ?case by simp
next
  case (Cons c s)
  show ?case
  proof (cases "rstrip s = [] \<and> is_space c")
    case True
    then have d: "dropWhile is_space s = []"
      by (simp add: rstrip_eq_Nil)
    show ?thesis
      using True by (simp add: rstrip_Cons d)
  next
    case False
    then show ?thesis
      using Cons.IH by (auto simp: rstrip_Cons)
  qed
qed

lemma strip_starts_with_word:
  "dropWhile is_space (strip s) = strip s"
  by (simp add: strip_def lstrip_def dropWhile_space_rstrip)

lemma lstrip_decomp:
  "s = takeWhile is_space s @ lstrip s"
  by (simp add: lstrip_def)

lemma rstrip_decomp:
  "s = rstrip s @ rev (takeWhile is_space (rev s))"
proof -
  have "rev (takeWhile is_space (rev s) @ dropWhile is_space (rev s)) = s"
    by (simp only: takeWhile_dropWhile_id rev_rev_ident)
  then have "rev (dropWhile is_space (rev s)) @ rev (takeWhile is_space (rev s)) = s"
    by (simp only: rev_append)
  then show ?thesis
    by (simp only: rstrip_def)
qed

lemma strip_decomp:
  "s = takeWhile is_space s @ strip s @ rev (takeWhile is_space (rev (lstrip s)))"
  using lstrip_decomp [of s] rstrip_decomp [of "lstrip s"]
  by (simp add: strip_def)

lemma strip_no_space_at_ends:
  assumes "strip s \<noteq> []"
  shows "\<not> is_space (hd (strip s))" and "\<not> is_space (last (strip s))"
proof -
  have "dropWhile is_space (strip s) = strip s"
    by (rule strip_starts_with_word)
  then show "\<not> is_space (hd (strip s))"
    using assms hd_dropWhile [of is_space "strip s"] by simp
  have ne: "dropWhile is_space (rev (lstrip s)) \<noteq> []"
    using assms by (simp add: strip_def rstrip_def)
  then have "\<not> is_space (hd (dropWhile is_space (rev (lstrip s))))"
    by (rule hd_dropWhile)
  then show "\<not> is_space (last (strip s))"
    using ne by (simp add: strip_def rstrip_def last_rev)
qed

lemma strip_trims:
  "\<exists>l r. q = l @ strip q @ r \<and> (\<forall>ch\<in>set (l @ r). is_space ch)
         \<and> (strip q = [] \<or> \<not> is_space (hd (strip q)) \<and> \<not> is_space (last (strip q)))"
proof (intro exI conjI)
  show "q = takeWhile is_space q @ strip q @ rev (takeWhile is_space (rev (lstrip q)))"
    by (rule strip_decomp)
  show "\<forall>ch\<in>set (takeWhile is_space q @ rev (takeWhile is_space (rev (lstrip q)))). is_space ch"
    by (auto dest: set_takeWhileD)
  show "strip q = [] \<or> \<not> is_space (hd (strip q)) \<and> \<not> is_space (last (strip q))"
    using strip_no_space_at_ends [of q] by blast
qed

lemma split_delim_first:
  "sublist '';;'' s \<Longrightarrow> \<exists>p u. s = p @ '';;'' @ u \<and> hd (split_delim acc s) = acc @ p"
proof (induction acc s rule: split_delim.induct)
  case (1 acc a b cs)
  show ?case
  proof (cases "a = CHR '';'' \<and> b = CHR '';''")
    case True
    then have "a # b # cs = [] @ '';;'' @ cs \<and> hd (split_delim acc (a # b # cs)) = acc @ []"
      by simp
    then show ?thesis by blast
  next
    case False
    then have "\<not> prefix '';;'' (a # b # cs)"
      by auto
    then have "sublist '';;'' (b # cs)"
      using "1.prems" by (auto simp: sublist_Cons_right)
    then obtain p u where pu: "b # cs = p @ '';;'' @ u"
        "hd (split_delim (acc @ [a]) (b # cs)) = (acc @ [a]) @ p"
      using "1.IH" False by blast
    have step: "split_delim acc (a # b # cs) = split_delim (acc @ [a]) (b # cs)"
      using False by auto
    have e1: "a # b # cs = (a # p) @ '';;'' @ u"
      using pu(1) by simp
    have e2: "hd (split_delim acc (a # b # cs)) = acc @ (a # p)"
      unfolding step pu(2) by simp
    show ?thesis
      using e1 e2 by blast
  qed
next
  case (2 acc a)
  then show ?case
    by (simp add: sublist_Cons_right)
next
  case (3 acc)
  then show ?case by simp
qed

lemma first_piece:
  assumes "sublist '';;'' t" and "str_split_delim t = first # rest"
  shows "\<exists>u. t = first @ '';;'' @ u"
  using split_delim_first [OF assms(1), of "[]"] assms(2)
  by (auto simp: str_split_delim_def)

lemma str_partition_append:
  assumes "sep \<in> set a"
  shows "str_partition sep (a @ b) =
           (fst (str_partition sep a), [sep], snd (snd (str_partition sep a)) @ b)"
proof -
  have ne: "dropWhile (\<lambda>c. c \<noteq> sep) a \<noteq> []"
    using assms by auto
  have "takeWhile (\<lambda>c. c \<noteq> sep) (a @ b) = takeWhile (\<lambda>c. c \<noteq> sep) a"
    using assms by (intro takeWhile_append1 [of sep]) auto
  moreover have "dropWhile (\<lambda>c. c \<noteq> sep) (a @ b) = dropWhile (\<lambda>c. c \<noteq> sep) a @ b"
    using assms by (intro dropWhile_append1 [of sep]) auto
  ultimately show ?thesis
    using assms ne by (simp add: str_partition_def)
qed

lemma parse_longer_line:
  assumes "parse e first fallback keep best_match = Inr r"
    and "cmd r = Some c"
    and "CHR '' '' \<in> set first"
  shows "\<exists>r'. parse e (first @ b) fallback keep best_match = Inr r' \<and> cmd r' = Some c
             \<and> args r' = Some (split_args (tok e) c (snd (snd (str_partition (CHR '' '') first)) @ b) keep)"
proof -
  obtain cmdstr sep argstr where p: "str_partition (CHR '' '') first = (cmdstr, sep, argstr)"
    by (cases "str_partition (CHR '' '') first") auto
  have p': "str_partition (CHR '' '') (first @ b) = (cmdstr, '' '', argstr @ b)"
    using str_partition_append [OF assms(3), of b] p by simp
  show ?thesis
    using assms(1,2) p
    by (auto simp: parse_def p' Let_def split: if_splits option.splits)
qed

section \<open>Compound lines\<close>

lemma parse_all_gen_subs:
  "sub_texts e text aliases fallback keep best_match = Inr subs \<Longrightarrow>
     parse_all_gen e text aliases fallback keep best_match =
       yield_all (\<lambda>sub. parse e sub fallback keep best_match) subs"
  by (simp add: parse_all_gen_def)

lemma sub_texts_compound:
  assumes "resolved_text text aliases = Inr (Some t)"
    and "sublist '';;'' t"
    and "str_split_delim t = first # rest"
    and "parse e first fallback keep best_match = Inr r"
    and "cmd r = Some c"
  shows "sub_texts e text aliases fallback keep best_match =
           Inr (if no_cmd_split c then [t] else map strip (str_split_delim t))"
  using assms by (simp add: sub_texts_def)

lemma parse_registered:
  assumes "\<not> partial_match e"
    and "str_partition (CHR '' '') text = (cmdstr, sep, argstr)"
    and "cmdstr \<noteq> []"
    and "map_of (commands e) cmdstr = Some c"
  shows "parse e text fallback False best_match =
           Inr \<lparr>cmd = Some c, args = Some (split_args (tok e) c argstr False),
                cmdline = cmdstr # split_args (tok e) c argstr False\<rparr>"
  using assms by (simp add: parse_def Let_def)

text \<open>
  C5, as amended: when the text (stripped, aliases resolved) holds the delimiter and the
  parse of its first piece returns a command, then: if that command declares
  \<^verbatim>\<open>no_cmd_split\<close>, the generator parses the whole text as one command; if moreover the
  first piece holds a space, that one parse succeeds with the same command and the
  delimiter lies in the argument string that is split into its arguments. If the command
  does not declare \<^verbatim>\<open>no_cmd_split\<close>, the generator parses every piece between the
  delimiters from left to right, each without the whitespace at its two ends. With an
  \<^verbatim>\<open>open\<close> that declares \<^verbatim>\<open>no_cmd_split\<close>, splits all its arguments and whose tokenizer
  splits at the spaces, the line "open foo ;; bar" gives one result with the arguments
  "foo", ";;" and "bar".
\<close>

theorem no_compound_split:
  "(resolved_text text aliases = Inr (Some t) \<and> sublist '';;'' t
      \<and> str_split_delim t = first # rest
      \<and> parse e first fallback keep best_match = Inr r \<and> cmd r = Some c
    \<longrightarrow>
      (no_cmd_split c \<longrightarrow>
         parse_all_gen e text aliases fallback keep best_match =
           yield_all (\<lambda>sub. parse e sub fallback keep best_match) [t])
      \<and> (no_cmd_split c \<and> CHR '' '' \<in> set first \<longrightarrow>
           sublist '';;'' (snd (snd (str_partition (CHR '' '') t)))
           \<and> (\<exists>r'. parse_all e text aliases fallback keep best_match = Inr [r']
                  \<and> cmd r' = Some c
                  \<and> args r' =
                      Some (split_args (tok e) c (snd (snd (str_partition (CHR '' '') t))) keep)))
      \<and> (\<not> no_cmd_split c \<longrightarrow>
           parse_all_gen e text aliases fallback keep best_match =
             yield_all (\<lambda>sub. parse e sub fallback keep best_match)
               (map strip (str_split_delim t))
           \<and> (\<forall>q\<in>set (str_split_delim t).
                 \<exists>l r. q = l @ strip q @ r \<and> (\<forall>ch\<in>set (l @ r). is_space ch)
                   \<and> (strip q = [] \<or>
                        \<not> is_space (hd (strip q)) \<and> \<not> is_space (last (strip q))))))
   \<and> (\<not> partial_match e \<and> map_of (commands e) ''open'' = Some c0 \<and> no_cmd_split c0
        \<and> maxsplit c0 = None
        \<and> split_split (tok e) ''foo ;; bar'' False = [''foo'', '';;'', ''bar'']
      \<longrightarrow> parse_all e ''open foo ;; bar'' None fallback False best_match =
            Inr [\<lparr>cmd = Some c0, args = Some [''foo'', '';;'', ''bar''],
                  cmdline = [''open'', ''foo'', '';;'', ''bar'']\<rparr>])"
proof (intro conjI impI)
  assume h: "resolved_text text aliases = Inr (Some t) \<and> sublist '';;'' t
      \<and> str_split_delim t = first # rest
      \<and> parse e first fallback keep best_match = Inr r \<and> cmd r = Some c"
  then have subs: "sub_texts e text aliases fallback keep best_match =
      Inr (if no_cmd_split c then [t] else map strip (str_split_delim t))"
    using sub_texts_compound [of _ aliases t first rest e fallback keep best_match r c] by simp
  {
    assume "no_cmd_split c"
    then show "parse_all_gen e text aliases fallback keep best_match =
           yield_all (\<lambda>sub. parse e sub fallback keep best_match) [t]"
      using subs by (simp add: parse_all_gen_def)
  }
  {
    assume "\<not> no_cmd_split c"
    then show "parse_all_gen e text aliases fallback keep best_match =
             yield_all (\<lambda>sub. parse e sub fallback keep best_match)
               (map strip (str_split_delim t))"
      using subs by (simp add: parse_all_gen_def)
  }
  show "\<forall>q\<in>set (str_split_delim t).
          \<exists>l r. q = l @ strip q @ r \<and> (\<forall>ch\<in>set (l @ r). is_space ch)
            \<and> (strip q = [] \<or> \<not> is_space (hd (strip q)) \<and> \<not> is_space (last (strip q)))"
    using strip_trims by blast
  {
    assume a: "no_cmd_split c \<and> CHR '' '' \<in> set first"
    obtain u where u: "t = first @ '';;'' @ u"
      using h first_piece by blast
    have part: "str_partition (CHR '' '') t =
        (fst (str_partition (CHR '' '') first), '' '',
         snd (snd (str_partition (CHR '' '') first)) @ '';;'' @ u)"
      unfolding u using a by (intro str_partition_append) simp
    show "sublist '';;'' (snd (snd (str_partition (CHR '' '') t)))"
      unfolding part by (simp only: snd_conv) (rule sublist_appendI)
    obtain r' where r': "parse e t fallback keep best_match = Inr r'" "cmd r' = Some c"
        "args r' = Some (split_args (tok e) c
                     (snd (snd (str_partition (CHR '' '') first)) @ '';;'' @ u) keep)"
      using parse_longer_line [of e first fallback keep best_match r c "'';;'' @ u"] h a
      unfolding u by blast
    have "parse_all e text aliases fallback keep best_match = Inr [r']"
      using subs a r'(1) by (simp add: parse_all_def parse_all_gen_def)
    then show "\<exists>r'. parse_all e text aliases fallback keep best_match = Inr [r']
                  \<and> cmd r' = Some c
                  \<and> args r' =
                      Some (split_args (tok e) c (snd (snd (str_partition (CHR '' '') t))) keep)"
      using r'(2,3) unfolding part by auto
  }
next
  assume a: "\<not> partial_match e \<and> map_of (commands e) ''open'' = Some c0 \<and> no_cmd_split c0
        \<and> maxsplit c0 = None
        \<and> split_split (tok e) ''foo ;; bar'' False = [''foo'', '';;'', ''bar'']"
  have res: "resolved_text ''open foo ;; bar'' None = Inr (Some ''open foo ;; bar'')"
    by code_simp
  have sub: "sublist '';;'' ''open foo ;; bar''"
    by code_simp
  have pieces: "str_split_delim ''open foo ;; bar'' = [''open foo '', '' bar'']"
    by code_simp
  have part1: "str_partition (CHR '' '') ''open foo '' = (''open'', '' '', ''foo '')"
    by code_simp
  have part: "str_partition (CHR '' '') ''open foo ;; bar'' = (''open'', '' '', ''foo ;; bar'')"
    by code_simp
  have first: "parse e ''open foo '' fallback False best_match =
      Inr \<lparr>cmd = Some c0, args = Some (split_args (tok e) c0 ''foo '' False),
           cmdline = ''open'' # split_args (tok e) c0 ''foo '' False\<rparr>"
    using a parse_registered [OF _ part1] by simp
  have whole: "parse e ''open foo ;; bar'' fallback False best_match =
      Inr \<lparr>cmd = Some c0, args = Some [''foo'', '';;'', ''bar''],
           cmdline = [''open'', ''foo'', '';;'', ''bar'']\<rparr>"
    using a parse_registered [OF _ part, of e c0 fallback best_match] by (simp add: split_args_def)
  have "sub_texts e ''open foo ;; bar'' None fallback False best_match = Inr [''open foo ;; bar'']"
    using a sub_texts_compound [OF res sub pieces first, of c0] by simp
  then show "parse_all e ''open foo ;; bar'' None fallback False best_match =
            Inr [\<lparr>cmd = Some c0, args = Some [''foo'', '';;'', ''bar''],
                  cmdline = [''open'', ''foo'', '';;'', ''bar'']\<rparr>]"
    using whole by (simp add: parse_all_def parse_all_gen_def)
qed


lemma ex_nosplit_hyps:
  "resolved_text ''open foo ;; bar'' None = Inr (Some ''open foo ;; bar'')"
  "sublist '';;'' ''open foo ;; bar''"
  "str_split_delim ''open foo ;; bar'' = [''open foo '', '' bar'']"
  "parse example_env_nosplit ''open foo '' False False False =
     Inr \<lparr>cmd = Some example_open_nosplit, args = Some [''foo''], cmdline = [''open'', ''foo'']\<rparr>"
  "no_cmd_split example_open_nosplit"
  "CHR '' '' \<in> set ''open foo ''"
  "snd (snd (str_partition (CHR '' '') ''open foo ;; bar'')) = ''foo ;; bar''"
  "split_args (tok example_env_nosplit) example_open_nosplit ''foo ;; bar'' False =
     [''foo'', '';;'', ''bar'']"
  "parse_all example_env_nosplit ''open foo ;; bar'' None False False False =
     Inr [\<lparr>cmd = Some example_open_nosplit, args = Some [''foo'', '';;'', ''bar''],
           cmdline = [''open'', ''foo'', '';;'', ''bar'']\<rparr>]"
  by code_simp+

lemma ex_line_hyps:
  "resolved_text example_line None = Inr (Some example_line)"
  "sublist '';;'' example_line"
  "str_split_delim example_line = [''open a '', '' open'' @ [CHR 0x09], '' open b'']"
  "parse example_env ''open a '' False False False =
     Inr \<lparr>cmd = Some example_open, args = Some [''a''], cmdline = [''open'', ''a'']\<rparr>"
  "\<not> no_cmd_split example_open"
  by code_simp+

lemma ex_line_yield:
  "yield_all (\<lambda>sub. parse example_env sub False False False)
     (map strip [''open a '', '' open'' @ [CHR 0x09], '' open b'']) =
     ([\<lparr>cmd = Some example_open, args = Some [''a''], cmdline = [''open'', ''a'']\<rparr>,
       \<lparr>cmd = Some example_open, args = Some [], cmdline = [''open'']\<rparr>,
       \<lparr>cmd = Some example_open, args = Some [''b''], cmdline = [''open'', ''b'']\<rparr>], None)"
  by code_simp

theorem no_compound_split_witness:
  "resolved_text ''open foo ;; bar'' None = Inr (Some ''open foo ;; bar'')
   \<and> sublist '';;'' ''open foo ;; bar''
   \<and> parse example_env_nosplit ''open foo '' False False False =
        Inr \<lparr>cmd = Some example_open_nosplit, args = Some [''foo''], cmdline = [''open'', ''foo'']\<rparr>
   \<and> no_cmd_split example_open_nosplit
   \<and> CHR '' '' \<in> set ''open foo ''
   \<and> sublist '';;'' (snd (snd (str_partition (CHR '' '') ''open foo ;; bar'')))
   \<and> parse_all example_env_nosplit ''open foo ;; bar'' None False False False =
        Inr [\<lparr>cmd = Some example_open_nosplit, args = Some [''foo'', '';;'', ''bar''],
              cmdline = [''open'', ''foo'', '';;'', ''bar'']\<rparr>]
   \<and> resolved_text example_line None = Inr (Some example_line)
   \<and> str_split_delim example_line = [''open a '', '' open'' @ [CHR 0x09], '' open b'']
   \<and> \<not> no_cmd_split example_open
   \<and> parse_all_gen example_env example_line None False False False =
        ([\<lparr>cmd = Some example_open, args = Some [''a''], cmdline = [''open'', ''a'']\<rparr>,
          \<lparr>cmd = Some example_open, args = Some [], cmdline = [''open'']\<rparr>,
          \<lparr>cmd = Some example_open, args = Some [''b''], cmdline = [''open'', ''b'']\<rparr>], None)"
  using no_compound_split [of "''open foo ;; bar''" None "''open foo ;; bar''" "''open foo ''" "['' bar'']"
          example_env_nosplit False False False
          "\<lparr>cmd = Some example_open_nosplit, args = Some [''foo''], cmdline = [''open'', ''foo'']\<rparr>"
          example_open_nosplit example_open_nosplit]
    no_compound_split [of example_line None example_line "''open a ''"
          "['' open'' @ [CHR 0x09], '' open b'']"
          example_env False False False
          "\<lparr>cmd = Some example_open, args = Some [''a''], cmdline = [''open'', ''a'']\<rparr>"
          example_open example_open]
    ex_nosplit_hyps ex_line_hyps ex_line_yield
  by simp

text \<open>
  The claim as stated fails on "open;;foo" with an \<^verbatim>\<open>open\<close> that declares
  \<^verbatim>\<open>no_cmd_split\<close>: the whole text is parsed as one command, the delimiter lies in the
  command token and not in the arguments, and the parse raises.
\<close>

theorem no_compound_split_counterexample:
  "resolved_text ''open;;foo'' None = Inr (Some ''open;;foo'')
   \<and> sublist '';;'' ''open;;foo''
   \<and> str_split_delim ''open;;foo'' = [''open'', ''foo'']
   \<and> parse example_env_nosplit ''open'' False False False =
        Inr \<lparr>cmd = Some example_open_nosplit, args = Some [], cmdline = [''open'']\<rparr>
   \<and> no_cmd_split example_open_nosplit
   \<and> parse_all example_env_nosplit ''open;;foo'' None False False False =
        Inl (UnknownCommand ''open;;foo'')"
  by code_simp

lemma yield_all_first_failure:
  "yield_all p subs =
     (map (\<lambda>s. projr (p s)) (takeWhile (\<lambda>s. \<not> isl (p s)) subs),
      case dropWhile (\<lambda>s. \<not> isl (p s)) subs of [] \<Rightarrow> None | s # _ \<Rightarrow> Some (projl (p s)))"
proof (induction subs)
  case Nil
  show ?case by simp
next
  case (Cons sub subs)
  show ?case
  proof (cases "p sub")
    case (Inl err)
    then show ?thesis by simp
  next
    case (Inr r)
    then show ?thesis using Cons.IH by simp
  qed
qed

text \<open>
  C2, as amended: the sub-commands of a compound line are parsed from left to right and
  the first failure ends the parse. The generator yields the results of the sub-commands
  before the first one that fails and then raises the error of that one; later
  sub-commands are not parsed. \<^verbatim>\<open>parse_all\<close> returns the list of all results when no
  sub-command fails, and raises the error of the first failing one otherwise.
\<close>

theorem compound_first_failure:
  assumes "sub_texts e text aliases fallback keep best_match = Inr subs"
  shows "parse_all_gen e text aliases fallback keep best_match =
           (map (\<lambda>s. projr (parse e s fallback keep best_match))
              (takeWhile (\<lambda>s. \<not> isl (parse e s fallback keep best_match)) subs),
            case dropWhile (\<lambda>s. \<not> isl (parse e s fallback keep best_match)) subs of
              [] \<Rightarrow> None
            | s # _ \<Rightarrow> Some (projl (parse e s fallback keep best_match)))
       \<and> parse_all e text aliases fallback keep best_match =
           (case dropWhile (\<lambda>s. \<not> isl (parse e s fallback keep best_match)) subs of
              [] \<Rightarrow> Inr (map (\<lambda>s. projr (parse e s fallback keep best_match)) subs)
            | s # _ \<Rightarrow> Inl (projl (parse e s fallback keep best_match)))"
proof -
  let ?p = "\<lambda>s. parse e s fallback keep best_match"
  have gen: "parse_all_gen e text aliases fallback keep best_match = yield_all ?p subs"
    using assms by (simp add: parse_all_gen_def)
  show ?thesis
  proof (cases "dropWhile (\<lambda>s. \<not> isl (?p s)) subs")
    case Nil
    have "takeWhile (\<lambda>s. \<not> isl (?p s)) subs @ dropWhile (\<lambda>s. \<not> isl (?p s)) subs = subs"
      by (rule takeWhile_dropWhile_id)
    then have tk: "takeWhile (\<lambda>s. \<not> isl (?p s)) subs = subs"
      unfolding Nil by simp
    have "yield_all ?p subs = (map (\<lambda>s. projr (?p s)) subs, None)"
      by (subst yield_all_first_failure) (simp only: Nil tk list.case)
    then show ?thesis
      by (simp add: parse_all_def gen Nil tk)
  next
    case (Cons s rest)
    have "yield_all ?p subs =
            (map (\<lambda>s. projr (?p s)) (takeWhile (\<lambda>s. \<not> isl (?p s)) subs), Some (projl (?p s)))"
      by (subst yield_all_first_failure) (simp only: Cons list.case)
    then show ?thesis
      by (simp add: parse_all_def gen Cons)
  qed
qed

lemma ex_bad_subs:
  "sub_texts example_env ''open a ;; bad ;; open b'' None False False False =
     Inr [''open a'', ''bad'', ''open b'']"
  by code_simp

lemma ex_bad_parses:
  "parse example_env ''open a'' False False False =
     Inr \<lparr>cmd = Some example_open, args = Some [''a''], cmdline = [''open'', ''a'']\<rparr>"
  "parse example_env ''bad'' False False False = Inl (UnknownCommand ''bad'')"
  "parse example_env ''open b'' False False False =
     Inr \<lparr>cmd = Some example_open, args = Some [''b''], cmdline = [''open'', ''b'']\<rparr>"
  by code_simp+

theorem compound_first_failure_witness:
  "sub_texts example_env ''open a ;; bad ;; open b'' None False False False =
     Inr [''open a'', ''bad'', ''open b'']
   \<and> parse_all_gen example_env ''open a ;; bad ;; open b'' None False False False =
       ([\<lparr>cmd = Some example_open, args = Some [''a''], cmdline = [''open'', ''a'']\<rparr>],
        Some (UnknownCommand ''bad''))
   \<and> parse_all example_env ''open a ;; bad ;; open b'' None False False False =
       Inl (UnknownCommand ''bad'')"
  using compound_first_failure [OF ex_bad_subs] ex_bad_subs ex_bad_parses
  by simp

text \<open>
  The claim as stated fails on a line of three sub-commands whose second is unknown: the
  third would parse, and no outcome is produced for it.
\<close>

theorem compound_first_failure_counterexample:
  "sub_texts example_env ''open a ;; bad ;; open b'' None False False False =
     Inr [''open a'', ''bad'', ''open b'']
   \<and> parse example_env ''open b'' False False False =
       Inr \<lparr>cmd = Some example_open, args = Some [''b''], cmdline = [''open'', ''b'']\<rparr>
   \<and> parse_all_gen example_env ''open a ;; bad ;; open b'' None False False False =
       ([\<lparr>cmd = Some example_open, args = Some [''a''], cmdline = [''open'', ''a'']\<rparr>],
        Some (UnknownCommand ''bad''))
   \<and> parse_all example_env ''open a ;; bad ;; open b'' None False False False =
       Inl (UnknownCommand ''bad'')"
  by code_simp

section \<open>The bounded split of the arguments\<close>

lemma first_positional_flags:
  assumes "\<forall>f\<in>set fl. startswith (strip f) (CHR ''-'')"
    and "\<not> startswith (strip p) (CHR ''-'')"
  shows "first_positional c m (fl @ p # rest) i k =
           Some (i + length fl + m + (k + length (filter (\<lambda>f. strip f \<in> set (flags_with_args c)) fl)))"
  using assms
  by (induction fl arbitrary: i k) (simp_all add: Let_def)

text \<open>
  C3, as amended: for a command with a bound \<open>m\<close>, when the first split of a non-empty
  argument string gives flags \<open>fl\<close> and then a token \<open>p\<close> that is no flag, the result is the
  second split with the bound \<open>length fl + m +\<close> the number of those flags that take an
  argument. For "--foo -v bar baz qux" with \<^verbatim>\<open>-v\<close> taking an argument the bound is
  \<open>3 + m\<close>: with \<open>m = 0\<close> a tokenizer that joins everything from the bound onward gives
  the four tokens "--foo", "-v", "bar", "baz qux"; with \<open>m = 2\<close> the bound is 5 and the
  five words stay apart.
\<close>

theorem split_args_bound:
  "(argstr \<noteq> [] \<and> maxsplit c = Some m \<and> simple_split tk argstr keep None = fl @ p # rest
      \<and> (\<forall>f\<in>set fl. startswith (strip f) (CHR ''-'')) \<and> \<not> startswith (strip p) (CHR ''-'')
    \<longrightarrow> split_args tk c argstr keep =
          simple_split tk argstr keep
            (Some (length fl + m + length (filter (\<lambda>f. strip f \<in> set (flags_with_args c)) fl))))
   \<and> (simple_split tk ''--foo -v bar baz qux'' False None = [''--foo'', ''-v'', ''bar'', ''baz'', ''qux'']
        \<and> ''-v'' \<in> set (flags_with_args c) \<and> ''--foo'' \<notin> set (flags_with_args c)
        \<and> maxsplit c = Some m
      \<longrightarrow> split_args tk c ''--foo -v bar baz qux'' False =
            simple_split tk ''--foo -v bar baz qux'' False (Some (3 + m)))"
proof (intro conjI impI)
  assume a: "argstr \<noteq> [] \<and> maxsplit c = Some m \<and> simple_split tk argstr keep None = fl @ p # rest
      \<and> (\<forall>f\<in>set fl. startswith (strip f) (CHR ''-'')) \<and> \<not> startswith (strip p) (CHR ''-'')"
  then have "first_positional c m (simple_split tk argstr keep None) 0 0 =
      Some (length fl + m + length (filter (\<lambda>f. strip f \<in> set (flags_with_args c)) fl))"
    using first_positional_flags [of fl p c m rest 0 0] by simp
  then show "split_args tk c argstr keep =
          simple_split tk argstr keep
            (Some (length fl + m + length (filter (\<lambda>f. strip f \<in> set (flags_with_args c)) fl)))"
    using a by (simp add: split_args_def)
next
  assume b: "simple_split tk ''--foo -v bar baz qux'' False None = [''--foo'', ''-v'', ''bar'', ''baz'', ''qux'']
        \<and> ''-v'' \<in> set (flags_with_args c) \<and> ''--foo'' \<notin> set (flags_with_args c)
        \<and> maxsplit c = Some m"
  have s: "strip ''--foo'' = ''--foo''" "strip ''-v'' = ''-v''" "strip ''bar'' = ''bar''"
    by code_simp+
  have "first_positional c m [''--foo'', ''-v'', ''bar'', ''baz'', ''qux''] 0 0 = Some (3 + m)"
    using b by (simp add: s startswith_def)
  then show "split_args tk c ''--foo -v bar baz qux'' False =
            simple_split tk ''--foo -v bar baz qux'' False (Some (3 + m))"
    using b by (simp add: split_args_def)
qed

lemma ex_bounded_first_pass:
  "simple_split ws_tokenizer ''--foo -v bar baz qux'' False None =
     [''--foo'', ''-v'', ''bar'', ''baz'', ''qux'']"
  by code_simp

lemma ex_bounded_hyps:
  "''--foo -v bar baz qux'' \<noteq> []"
  "maxsplit (example_bounded 0) = Some 0"
  "simple_split ws_tokenizer ''--foo -v bar baz qux'' False None =
     [''--foo'', ''-v''] @ ''bar'' # [''baz'', ''qux'']"
  "startswith (strip ''--foo'') (CHR ''-'')"
  "startswith (strip ''-v'') (CHR ''-'')"
  "\<not> startswith (strip ''bar'') (CHR ''-'')"
  "''-v'' \<in> set (flags_with_args (example_bounded 0))"
  "''--foo'' \<notin> set (flags_with_args (example_bounded 0))"
  "strip ''--foo'' \<notin> set (flags_with_args (example_bounded 0))"
  "strip ''-v'' \<in> set (flags_with_args (example_bounded 0))"
  by code_simp+

lemma ex_bounded_second_pass:
  "simple_split ws_tokenizer ''--foo -v bar baz qux'' False (Some 3) =
     [''--foo'', ''-v'', ''bar'', ''baz qux'']"
  by code_simp

theorem split_args_bound_witness:
  "''--foo -v bar baz qux'' \<noteq> []
   \<and> maxsplit (example_bounded 0) = Some 0
   \<and> simple_split ws_tokenizer ''--foo -v bar baz qux'' False None =
       [''--foo'', ''-v'', ''bar'', ''baz'', ''qux'']
   \<and> startswith (strip ''--foo'') (CHR ''-'')
   \<and> startswith (strip ''-v'') (CHR ''-'')
   \<and> \<not> startswith (strip ''bar'') (CHR ''-'')
   \<and> ''-v'' \<in> set (flags_with_args (example_bounded 0))
   \<and> ''--foo'' \<notin> set (flags_with_args (example_bounded 0))
   \<and> split_args ws_tokenizer (example_bounded 0) ''--foo -v bar baz qux'' False =
       [''--foo'', ''-v'', ''bar'', ''baz qux'']"
  using split_args_bound [of "''--foo -v bar baz qux''" "example_bounded 0" 0 ws_tokenizer False
          "[''--foo'', ''-v'']" "''bar''" "[''baz'', ''qux'']"]
    ex_bounded_hyps ex_bounded_second_pass
  by (simp add: numeral_3_eq_3)

text \<open>
  The claim as stated fails: with the bound 2 the result has five tokens, with and
  without the keeping mode.
\<close>

theorem split_args_bound_counterexample:
  "split_args ws_tokenizer (example_bounded 2) ''--foo -v bar baz qux'' False =
     [''--foo'', ''-v'', ''bar'', ''baz'', ''qux'']
   \<and> split_args ws_tokenizer (example_bounded 2) ''--foo -v bar baz qux'' False \<noteq>
     [''--foo'', ''-v'', ''bar'', ''baz qux'']
   \<and> split_args ws_tokenizer (example_bounded 2) ''--foo -v bar baz qux'' True \<noteq>
     [''--foo'', ''-v'', ''bar'', ''baz qux'']"
  by code_simp

section \<open>Aliases\<close>

lemma split_maxsplit1_strip:
  assumes "lstrip s \<noteq> []"
  shows "str_split_maxsplit1 (strip s) =
           (if strip (dropWhile (\<lambda>c. \<not> is_space c) (lstrip s)) = []
            then [takeWhile (\<lambda>c. \<not> is_space c) (lstrip s)]
            else [takeWhile (\<lambda>c. \<not> is_space c) (lstrip s),
                  strip (dropWhile (\<lambda>c. \<not> is_space c) (lstrip s))])"
proof -
  have ne: "strip s \<noteq> []"
  proof -
    obtain c cs where l: "lstrip s = c # cs"
      using assms by (cases "lstrip s") auto
    then have "\<not> is_space c"
      using hd_dropWhile [of is_space s] by (simp add: lstrip_def)
    then show ?thesis
      by (simp add: strip_def l rstrip_Cons)
  qed
  have head: "takeWhile (\<lambda>c. \<not> is_space c) (strip s) =
                takeWhile (\<lambda>c. \<not> is_space c) (lstrip s)"
    by (simp add: strip_def takeWhile_rstrip)
  have rest: "dropWhile is_space (dropWhile (\<lambda>c. \<not> is_space c) (strip s)) =
                strip (dropWhile (\<lambda>c. \<not> is_space c) (lstrip s))"
    by (simp add: strip_def [of s] dropWhile_word_rstrip dropWhile_space_rstrip)
       (simp add: strip_def lstrip_def)
  show ?thesis
    using ne
    by (simp add: str_split_maxsplit1_def strip_starts_with_word head rest Let_def)
qed

text \<open>
  C8, as amended: for every text that is not blank, with the text itself as the default:
  when the first word of the text is no key of the alias map the text is returned
  unchanged; otherwise the result is the expansion, followed by a space and the stripped
  rest of the text when that rest is not empty, and one more space is appended exactly
  when the text ends with a space character. The expansion is looked up once; the result
  is not resolved again.
\<close>

theorem alias_resolution:
  assumes "lstrip text \<noteq> []"
  shows "get_alias text aliases (Some text) =
           Inr (Some
             (case map_of aliases (takeWhile (\<lambda>c. \<not> is_space c) (lstrip text)) of
                None \<Rightarrow> text
              | Some expansion \<Rightarrow>
                  (if strip (dropWhile (\<lambda>c. \<not> is_space c) (lstrip text)) = [] then expansion
                   else expansion @ '' '' @ strip (dropWhile (\<lambda>c. \<not> is_space c) (lstrip text)))
                  @ (if endswith text (CHR '' '') then '' '' else [])))"
  using assms
  by (simp add: get_alias_def split_maxsplit1_strip split: option.splits)

lemma ex_alias_hyp: "lstrip ''a y '' \<noteq> []"
  by code_simp

lemma ex_alias_eval:
  "map_of [(''a'', ''b x''), (''b'', ''c'')] (takeWhile (\<lambda>c. \<not> is_space c) (lstrip ''a y '')) = Some ''b x''"
  "strip (dropWhile (\<lambda>c. \<not> is_space c) (lstrip ''a y '')) = ''y''"
  "endswith ''a y '' (CHR '' '')"
  by code_simp+

lemma ex_alias_nbsp_hyp: "lstrip [CHR ''a'', CHR 0xA0, CHR ''b''] \<noteq> []"
  by code_simp

lemma ex_alias_nbsp_eval:
  "map_of [(''a'', ''open'')]
     (takeWhile (\<lambda>c. \<not> is_space c) (lstrip [CHR ''a'', CHR 0xA0, CHR ''b''])) = Some ''open''"
  "strip (dropWhile (\<lambda>c. \<not> is_space c) (lstrip [CHR ''a'', CHR 0xA0, CHR ''b''])) = ''b''"
  "\<not> endswith [CHR ''a'', CHR 0xA0, CHR ''b''] (CHR '' '')"
  by code_simp+

theorem alias_resolution_witness:
  "lstrip ''a y '' \<noteq> []
   \<and> get_alias ''a y '' [(''a'', ''b x''), (''b'', ''c'')] (Some ''a y '') = Inr (Some ''b x y '')
   \<and> lstrip [CHR ''a'', CHR 0xA0, CHR ''b''] \<noteq> []
   \<and> get_alias [CHR ''a'', CHR 0xA0, CHR ''b''] [(''a'', ''open'')]
        (Some [CHR ''a'', CHR 0xA0, CHR ''b'']) = Inr (Some ''open b'')"
  using alias_resolution [OF ex_alias_hyp, of "[(''a'', ''b x''), (''b'', ''c'')]"]
    alias_resolution [OF ex_alias_nbsp_hyp, of "[(''a'', ''open'')]"]
    ex_alias_hyp ex_alias_eval ex_alias_nbsp_hyp ex_alias_nbsp_eval
  by simp

text \<open>
  The claim as stated fails on a text that ends with a tab: the result ends with no
  whitespace. Two spaces at the end become one.
\<close>

theorem alias_resolution_counterexample:
  "get_alias [CHR ''a'', CHR 0x09] [(''a'', ''open'')] (Some [CHR ''a'', CHR 0x09]) = Inr (Some ''open'')
   \<and> is_space (last [CHR ''a'', CHR 0x09])
   \<and> \<not> is_space (last ''open'')
   \<and> get_alias ''a  '' [(''a'', ''open'')] (Some ''a  '') = Inr (Some ''open '')"
  by code_simp

section \<open>Partial matching\<close>

lemma hd_sort_key_first_least:
  assumes "xs \<noteq> []"
  shows "hd (sort_key f xs) = hd (filter (\<lambda>x. \<forall>y\<in>set xs. f x \<le> f y) xs)"
proof -
  have "sort_key f xs \<noteq> []"
    using assms by (metis length_sort length_0_conv)
  then obtain h t where ht: "sort_key f xs = h # t"
    by (cases "sort_key f xs") auto
  have "sorted (map f (h # t))"
    using sorted_sort_key [of f xs] by (simp add: ht)
  moreover have s: "set xs = set (h # t)"
    using set_sort [of f xs] by (simp add: ht)
  ultimately have least: "\<forall>y\<in>set xs. f h \<le> f y"
    by auto
  have h_in: "h \<in> set xs"
    using s by simp
  have "filter (\<lambda>y. f y = f h) xs = filter (\<lambda>y. f y = f h) (h # t)"
    using sort_key_stable [of f "f h" xs] by (simp add: ht)
  then have first: "hd (filter (\<lambda>y. f y = f h) xs) = h"
    by simp
  have "filter (\<lambda>x. \<forall>y\<in>set xs. f x \<le> f y) xs = filter (\<lambda>y. f y = f h) xs"
  proof (rule filter_cong [OF refl])
    fix x assume "x \<in> set xs"
    then show "(\<forall>y\<in>set xs. f x \<le> f y) = (f x = f h)"
      using least h_in by (auto intro: antisym)
  qed
  then show ?thesis
    using first by (simp add: ht)
qed

text \<open>
  C6, as amended: the matcher takes the registered names that contain the typed token as
  a substring. It returns the only match when there is exactly one; when there are
  several and \<open>best\<close> is set it returns the first of the shortest matches in the order of
  the registry (the sort by length is stable, so names of equal length keep the order in
  which the registry holds them); otherwise it returns the token unchanged.
\<close>

theorem completion_match_first_shortest:
  "completion_match cmds cmdstr best =
     (if length (filter (\<lambda>n. sublist cmdstr n) (map fst cmds)) = 1
      then hd (filter (\<lambda>n. sublist cmdstr n) (map fst cmds))
      else if length (filter (\<lambda>n. sublist cmdstr n) (map fst cmds)) > 1 \<and> best
      then hd (filter (\<lambda>m. \<forall>m'\<in>set (filter (\<lambda>n. sublist cmdstr n) (map fst cmds)). length m \<le> length m')
                 (filter (\<lambda>n. sublist cmdstr n) (map fst cmds)))
      else cmdstr)"
proof -
  define ms where "ms = filter (\<lambda>n. sublist cmdstr n) (map fst cmds)"
  have m: "filter (\<lambda>c. sublist cmdstr c) (sort_key length (map fst cmds)) = sort_key length ms"
    unfolding ms_def by (rule filter_sort)
  have cm: "completion_match cmds cmdstr best =
              (if length ms = 1 then hd (sort_key length ms)
               else if length ms > 1 \<and> best then hd (sort_key length ms)
               else cmdstr)"
    unfolding completion_match_def Let_def m by (simp only: length_sort)
  have goal: "completion_match cmds cmdstr best =
     (if length ms = 1 then hd ms
      else if length ms > 1 \<and> best
      then hd (filter (\<lambda>m. \<forall>m'\<in>set ms. length m \<le> length m') ms)
      else cmdstr)"
  proof (cases "length ms = 1")
    case True
    then obtain x where "ms = [x]"
      by (metis One_nat_def length_0_conv length_Suc_conv)
    then show ?thesis
      unfolding cm by simp
  next
    case False
    show ?thesis
    proof (cases "length ms > 1 \<and> best")
      case True
      then have "ms \<noteq> []" by auto
      then have "hd (sort_key length ms) =
                   hd (filter (\<lambda>m. \<forall>m'\<in>set ms. length m \<le> length m') ms)"
        by (rule hd_sort_key_first_least)
      then show ?thesis
        unfolding cm using False True by (simp only: if_True if_False)
    next
      case b: False
      show ?thesis
        unfolding cm using False b by (simp only: if_False)
    qed
  qed
  show ?thesis
    using goal unfolding ms_def .
qed

lemma ex_match_best:
  "(if length (filter (\<lambda>n. sublist ''op'' n) (map fst example_registry)) = 1
      then hd (filter (\<lambda>n. sublist ''op'' n) (map fst example_registry))
      else if length (filter (\<lambda>n. sublist ''op'' n) (map fst example_registry)) > 1 \<and> True
      then hd (filter (\<lambda>m. \<forall>m'\<in>set (filter (\<lambda>n. sublist ''op'' n) (map fst example_registry)). length m \<le> length m')
                 (filter (\<lambda>n. sublist ''op'' n) (map fst example_registry)))
      else ''op'') = ''oper''"
  by code_simp

lemma ex_match_unique:
  "(if length (filter (\<lambda>n. sublist ''ui'' n) (map fst example_registry)) = 1
      then hd (filter (\<lambda>n. sublist ''ui'' n) (map fst example_registry))
      else if length (filter (\<lambda>n. sublist ''ui'' n) (map fst example_registry)) > 1 \<and> False
      then hd (filter (\<lambda>m. \<forall>m'\<in>set (filter (\<lambda>n. sublist ''ui'' n) (map fst example_registry)). length m \<le> length m')
                 (filter (\<lambda>n. sublist ''ui'' n) (map fst example_registry)))
      else ''ui'') = ''quit''"
  by code_simp

lemma ex_match_ambiguous:
  "(if length (filter (\<lambda>n. sublist ''open'' n) (map fst example_registry)) = 1
      then hd (filter (\<lambda>n. sublist ''open'' n) (map fst example_registry))
      else if length (filter (\<lambda>n. sublist ''open'' n) (map fst example_registry)) > 1 \<and> False
      then hd (filter (\<lambda>m. \<forall>m'\<in>set (filter (\<lambda>n. sublist ''open'' n) (map fst example_registry)). length m \<le> length m')
                 (filter (\<lambda>n. sublist ''open'' n) (map fst example_registry)))
      else ''open'') = ''open''"
  by code_simp

theorem completion_match_first_shortest_witness:
  "completion_match example_registry ''op'' True = ''oper''
   \<and> completion_match example_registry ''ui'' False = ''quit''
   \<and> completion_match example_registry ''open'' False = ''open''"
  by (intro conjI)
     (rule trans [OF completion_match_first_shortest ex_match_best],
      rule trans [OF completion_match_first_shortest ex_match_unique],
      rule trans [OF completion_match_first_shortest ex_match_ambiguous])

text \<open>
  The claim as stated fails where two shortest matches are registered against the lexical
  order: the code returns the one registered first, the specification's matcher the
  lexically smaller one.
\<close>

theorem completion_match_first_shortest_counterexample:
  "completion_match example_registry ''op'' True = ''oper''
   \<and> spec_completion_match (map fst example_registry) ''op'' True = ''open''"
  by code_simp

section \<open>Display tokens in the keeping mode\<close>

lemma str_partition_concat:
  "str_partition sep s = (a, b, c) \<Longrightarrow> a @ b @ c = s"
proof -
  assume p: "str_partition sep s = (a, b, c)"
  show ?thesis
  proof (cases "sep \<in> set s")
    case True
    then have "dropWhile (\<lambda>c. c \<noteq> sep) s \<noteq> []"
      by auto
    moreover have "hd (dropWhile (\<lambda>c. c \<noteq> sep) s) = sep"
      using hd_dropWhile [of "\<lambda>c. c \<noteq> sep" s] calculation by simp
    ultimately have "sep # tl (dropWhile (\<lambda>c. c \<noteq> sep) s) = dropWhile (\<lambda>c. c \<noteq> sep) s"
      by (cases "dropWhile (\<lambda>c. c \<noteq> sep) s") auto
    then show ?thesis
      using p True by (auto simp: str_partition_def)
  next
    case False
    then show ?thesis
      using p by (simp add: str_partition_def)
  qed
qed

lemma ws_keep_concat: "concat (ws_keep bound s) = s"
proof (induction bound s rule: ws_keep.induct)
  case (1 bound s)
  show ?case
  proof (cases "s = [] \<or> bound = Some 0")
    case True
    then show ?thesis
      by (subst ws_keep.simps) auto
  next
    case False
    then have "concat (ws_keep (map_option (\<lambda>n. n - 1) bound)
                 (dropWhile (\<lambda>c. \<not> is_space c) (dropWhile is_space s))) =
               dropWhile (\<lambda>c. \<not> is_space c) (dropWhile is_space s)"
      using "1.IH" by simp
    then show ?thesis
      using False by (subst ws_keep.simps) simp
  qed
qed

lemma ws_tokenizer_lossless: "keep_lossless ws_tokenizer"
  by (simp add: keep_lossless_def ws_tokenizer_def ws_keep_concat)

lemma split_args_concat:
  assumes "keep_lossless tk"
  shows "concat (split_args tk c argstr True) = argstr"
  using assms
  by (auto simp: split_args_def keep_lossless_def Let_def split: option.splits)

text \<open>
  C1, as amended: for every text that \<^verbatim>\<open>parse\<close> accepts with \<^verbatim>\<open>keep=True\<close>, when partial
  matching is off or leaves the command token as typed, and the tokenizer loses nothing
  in its keeping mode, the display tokens put together without any separator are the
  text, character for character.
\<close>

theorem keep_round_trip:
  assumes "keep_lossless (tok e)"
    and "\<not> partial_match e \<or>
         completion_match (commands e) (fst (str_partition (CHR '' '') text)) best_match =
           fst (str_partition (CHR '' '') text)"
    and "parse e text fallback True best_match = Inr r"
  shows "concat (cmdline r) = text"
proof -
  obtain cmdstr sep argstr where p: "str_partition (CHR '' '') text = (cmdstr, sep, argstr)"
    by (cases "str_partition (CHR '' '') text") auto
  have whole: "cmdstr @ sep @ argstr = text"
    using p by (rule str_partition_concat)
  have tokn: "(if partial_match e then completion_match (commands e) cmdstr best_match else cmdstr) = cmdstr"
    using assms(2) p by auto
  show ?thesis
  proof (cases "map_of (commands e) cmdstr")
    case None
    then have "cmdline r = split_split (tok e) text True"
      using assms(3) p tokn by (auto simp: parse_def Let_def split: if_splits)
    then show ?thesis
      using assms(1) by (simp add: keep_lossless_def)
  next
    case (Some c)
    let ?as = "split_args (tok e) c argstr True"
    have as: "concat ?as = argstr"
      using assms(1) by (rule split_args_concat)
    have "cmdline r = (if ?as \<noteq> [] then [cmdstr, sep @ hd ?as] @ tl ?as else [cmdstr, sep])"
      using assms(3) p tokn Some by (auto simp: parse_def Let_def split: if_splits)
    then have "concat (cmdline r) = cmdstr @ sep @ concat ?as"
      by (cases ?as) auto
    then show ?thesis
      using as whole by simp
  qed
qed


lemma ex_keep_parse:
  "parse example_env ''open foo  bar '' False True False =
     Inr \<lparr>cmd = Some example_open, args = Some [''foo'', ''  bar'', '' ''],
          cmdline = [''open'', '' foo'', ''  bar'', '' '']\<rparr>"
  by code_simp

lemma ex_keep_no_partial: "\<not> partial_match example_env"
  by (simp add: example_env_def)

lemma ex_keep_tok: "tok example_env = ws_tokenizer"
  by (simp add: example_env_def)

theorem keep_round_trip_witness:
  "keep_lossless (tok example_env)
   \<and> \<not> partial_match example_env
   \<and> parse example_env ''open foo  bar '' False True False =
       Inr \<lparr>cmd = Some example_open, args = Some [''foo'', ''  bar'', '' ''],
            cmdline = [''open'', '' foo'', ''  bar'', '' '']\<rparr>
   \<and> concat [''open'', '' foo'', ''  bar'', '' ''] = ''open foo  bar ''"
  using keep_round_trip [of example_env _ False False, OF _ _ ex_keep_parse]
    ws_tokenizer_lossless ex_keep_no_partial ex_keep_tok ex_keep_parse
  by simp


text \<open>
  The claim as stated fails on "open foo": the display tokens carry their separators, so
  joining them with single spaces doubles the space. With partial matching the typed
  token "ope" is replaced by "open" in the display tokens.
\<close>

theorem keep_round_trip_counterexample:
  "parse example_env ''open foo'' False True False =
     Inr \<lparr>cmd = Some example_open, args = Some [''foo''], cmdline = [''open'', '' foo'']\<rparr>
   \<and> join_spaces [''open'', '' foo''] = ''open  foo''
   \<and> strip (join_spaces [''open'', '' foo'']) \<noteq> strip ''open foo''
   \<and> parse example_env_partial ''ope foo'' False True False =
       Inr \<lparr>cmd = Some example_open, args = Some [''foo''], cmdline = [''open'', '' foo'']\<rparr>"
  by code_simp

end
